theory Spec2Isabelle
  imports Main
begin

section \<open>Daily sales reconciliation workflow (lambda\_function.py)\<close>

text \<open>
  A shallow embedding of \<^verbatim>\<open>src/src/lambda_function.py\<close>. The workflow loads the
  day's sales records, enriches every record with tax and total, asks for an approval of
  the high-value records, forwards the approved records to an external ledger and writes
  the reports. Python exceptions are values of \<open>py_error\<close>; calls that leave the process
  (callback, approval request, ledger call, waits, object writes) are recorded as a list
  of events in the order in which the handler issues them.
\<close>

subsection \<open>Constants\<close>

definition HIGH_VALUE_THRESHOLD :: int where
  "HIGH_VALUE_THRESHOLD = 1000000"

definition BATCH_SIZE :: nat where
  "BATCH_SIZE = 100"

definition API_BATCH_SIZE :: nat where
  "API_BATCH_SIZE = 1000"

definition API_RATE_LIMIT_WAIT_SECONDS :: nat where
  "API_RATE_LIMIT_WAIT_SECONDS = 10"

subsection \<open>Errors and records\<close>

text \<open>
  \<open>OverflowError\<close> is what Python raises when an integer is too large for a float,
  \<open>AttributeError\<close> what it raises when an attribute is read from an object that does
  not have it; \<open>SyncFailure\<close> stands for the error with which a call of the external
  ledger fails.
\<close>

datatype py_error = OverflowError | AttributeError | SyncFailure

text \<open>
  The dictionary built per CSV row by \<^verbatim>\<open>fetch_sales_data\<close> has eight fixed keys;
  \<^verbatim>\<open>amount\<close> and \<^verbatim>\<open>quantity\<close> are Python integers (unbounded). The key
  \<^verbatim>\<open>id\<close> is the field \<open>id_of\<close> and \<^verbatim>\<open>product\<close> is \<open>product_of\<close>.
\<close>

record sales_record =
  id_of :: string
  customer_name :: string
  product_of :: string
  amount :: int
  quantity :: int
  region :: string
  category :: string
  timestamp :: string

text \<open>
  \<^verbatim>\<open>process_record\<close> returns the same dictionary with three more keys; the key
  \<^verbatim>\<open>total\<close> is the field \<open>total_of\<close>.
\<close>

record enriched_record = sales_record +
  tax :: int
  total_of :: int
  processed :: bool

subsection \<open>Python's \<^verbatim>\<open>int(amount * 0.1)\<close>: double-precision arithmetic\<close>

text \<open>
  \<^verbatim>\<open>record['amount'] * 0.1\<close> converts the integer to a double, multiplies two doubles
  and rounds the product to a double; \<^verbatim>\<open>int(...)\<close> truncates towards zero. A double
  has 53 significant bits and rounds to nearest, ties to even. The literals are the doubles
  \<open>0.1 = 3602879701896397 / 2^55\<close> and \<open>1.1 = 2476979795053773 / 2^51\<close>. All values
  here are integers or integers divided by a fixed power of two, so the arithmetic is
  written on the numerators.
\<close>

fun bit_length :: "nat \<Rightarrow> nat" where
  "bit_length n = (if n = 0 then 0 else Suc (bit_length (n div 2)))"

declare bit_length.simps [simp del]

text \<open>Rounding a positive numerator to 53 significant bits, nearest, ties to even.\<close>

definition round_to_double :: "nat \<Rightarrow> nat" where
  "round_to_double N =
     (if bit_length N \<le> 53 then N
      else let s = bit_length N - 53;
               q = N div 2 ^ s;
               r = N mod 2 ^ s;
               h = 2 ^ (s - 1)
           in (if h < r \<or> (r = h \<and> odd q) then q + 1 else q) * 2 ^ s)"

text \<open>
  \<open>int_of_product a M k\<close> is \<^verbatim>\<open>int(a * c)\<close> for the double \<open>c = M / 2^k\<close>. The
  conversion of \<open>a\<close> to a double raises \<open>OverflowError\<close> from \<open>2^1024\<close> on (after
  rounding); a product that rounds to \<open>2^1024\<close> or more is infinite, and \<^verbatim>\<open>int\<close>
  of an infinite double raises \<open>OverflowError\<close> too.
\<close>

definition int_of_product :: "int \<Rightarrow> nat \<Rightarrow> nat \<Rightarrow> py_error + int" where
  "int_of_product a M k =
     (let fa = round_to_double (nat \<bar>a\<bar>) in
      if 2 ^ 1024 \<le> fa then Inl OverflowError
      else let p = round_to_double (fa * M) in
           if 2 ^ (1024 + k) \<le> p then Inl OverflowError
           else Inr (sgn a * int (p div 2 ^ k)))"

definition times_0_1 :: "int \<Rightarrow> py_error + int" where
  "times_0_1 a = int_of_product a 3602879701896397 55"

definition times_1_1 :: "int \<Rightarrow> py_error + int" where
  "times_1_1 a = int_of_product a 2476979795053773 51"

subsection \<open>Enrichment of one record and of one batch\<close>

text \<open>
  \<^verbatim>\<open>process_record\<close>: the sleep of 0.05 seconds has no effect on the value. The tax
  is computed before the total, so its error is the one raised.
\<close>

definition process_record :: "sales_record \<Rightarrow> py_error + enriched_record" where
  "process_record record =
     (case times_0_1 (amount record) of
        Inl e \<Rightarrow> Inl e
      | Inr t \<Rightarrow>
         (case times_1_1 (amount record) of
            Inl e \<Rightarrow> Inl e
          | Inr tt \<Rightarrow>
             Inr \<lparr> id_of = id_of record, customer_name = customer_name record,
                   product_of = product_of record, amount = amount record,
                   quantity = quantity record, region = region record,
                   category = category record, timestamp = timestamp record,
                   tax = t, total_of = tt, processed = True \<rparr>))"

text \<open>A list comprehension over a function that may raise stops at the first error.\<close>

fun map_raising :: "('a \<Rightarrow> py_error + 'b) \<Rightarrow> 'a list \<Rightarrow> py_error + 'b list" where
  "map_raising f [] = Inr []"
| "map_raising f (x # xs) =
     (case f x of
        Inl e \<Rightarrow> Inl e
      | Inr y \<Rightarrow> (case map_raising f xs of Inl e \<Rightarrow> Inl e | Inr ys \<Rightarrow> Inr (y # ys)))"

text \<open>
  \<^verbatim>\<open>process_batch(ctx, batch, index, all_batches)\<close>: the index and the list of all
  batches are only logged.
\<close>

definition process_batch ::
  "sales_record list \<Rightarrow> nat \<Rightarrow> sales_record list list \<Rightarrow> py_error + enriched_record list" where
  "process_batch batch index all_batches = map_raising process_record batch"

subsection \<open>Step 2: batches and the batch-parallel map\<close>

text \<open>
  \<^verbatim>\<open>range(start, stop, step)\<close> for the two positive step constants of the program.
  (A step of zero raises in Python; both constants are positive, the list is empty here.)
\<close>

function range_step :: "nat \<Rightarrow> nat \<Rightarrow> nat \<Rightarrow> nat list" where
  "range_step start stop step =
     (if start < stop \<and> 0 < step then start # range_step (start + step) stop step else [])"
  by pat_completeness auto
termination
  by (relation "measure (\<lambda>(start, stop, step). stop - start)") auto

declare range_step.simps [simp del]

text \<open>The slice \<^verbatim>\<open>xs[i:i + n]\<close>.\<close>

definition slice :: "'a list \<Rightarrow> nat \<Rightarrow> nat \<Rightarrow> 'a list" where
  "slice xs i n = take n (drop i xs)"

text \<open>\<^verbatim>\<open>[records[i:i + BATCH_SIZE] for i in range(0, len(records), BATCH_SIZE)]\<close>\<close>

definition batches_of :: "sales_record list \<Rightarrow> sales_record list list" where
  "batches_of records =
     map (\<lambda>i. slice records i BATCH_SIZE) (range_step 0 (length records) BATCH_SIZE)"

text \<open>
  \<^verbatim>\<open>context.map(batches, process_batch, ...).get_results()\<close>: every batch is given to
  \<^verbatim>\<open>process_batch\<close> with its index and the list of all batches. The map primitive
  belongs to the durable runtime, which is not part of the repository; the handler never
  asks it whether a batch failed and only iterates \<^verbatim>\<open>map_result.get_results()\<close>, the
  results of the batches that succeeded, in the order of the batches. A batch in which a
  record raises has no result and is left out.
\<close>

definition map_batches :: "sales_record list list \<Rightarrow> enriched_record list list" where
  "map_batches batches =
     concat (map (\<lambda>(index, batch).
                    case process_batch batch index batches of
                      Inl e \<Rightarrow> []
                    | Inr batch_result \<Rightarrow> [batch_result])
               (enumerate 0 batches))"

text \<open>The list \<^verbatim>\<open>processed\<close>, extended by every batch result in turn.\<close>

definition enrich_records :: "sales_record list \<Rightarrow> enriched_record list" where
  "enrich_records records = concat (map_batches (batches_of records))"

subsection \<open>Steps 3 and 4: high-value ids and the approval flow\<close>

definition extract_high_value_ids :: "enriched_record list \<Rightarrow> int \<Rightarrow> string list" where
  "extract_high_value_ids records threshold =
     map id_of (filter (\<lambda>r. threshold \<le> amount r) records)"

text \<open>
  What \<^verbatim>\<open>callback.result()\<close> delivers, after \<^verbatim>\<open>json.loads\<close>: nothing or the empty
  string (\<open>No_result\<close>, read as \<^verbatim>\<open>'{}'\<close>), an object without the key
  \<^verbatim>\<open>approved_ids\<close>, or an object whose \<^verbatim>\<open>approved_ids\<close> is a list of ids.
  A payload of another shape (text that is not JSON, a value that is not an object, an
  \<^verbatim>\<open>approved_ids\<close> that is not a list of strings) and the expiry of the callback are
  not values of this type.
\<close>

datatype callback_result = No_result | Approved_ids_absent | Approved_ids "string list"

text \<open>\<^verbatim>\<open>json.loads(callback.result() or '{}').get('approved_ids', [])\<close>\<close>

fun payload_approved_ids :: "callback_result \<Rightarrow> string list" where
  "payload_approved_ids No_result = []"
| "payload_approved_ids Approved_ids_absent = []"
| "payload_approved_ids (Approved_ids ids) = ids"

text \<open>Payloads of the two reports written to the object store.\<close>

datatype report_body =
    Rejected_report string nat int "enriched_record list"
      \<comment> \<open>date, rejected\_count, total\_amount, records\<close>
  | Summary_report string nat nat int int
      \<comment> \<open>date, total\_approved, total\_rejected, approved\_sales, rejected\_sales\<close>

text \<open>The calls that leave the process, in the order the handler makes them.\<close>

datatype event =
    Create_callback
  | Send_approval_request nat string
  | Await_callback
  | Sync_call "enriched_record list"
  | Retry_delay nat
  | Wait nat
  | Put_object string string report_body

text \<open>
  Step 4 of \<^verbatim>\<open>lambda_handler\<close>: the events, \<^verbatim>\<open>approved_ids\<close> and
  \<^verbatim>\<open>rejected_ids\<close>. The callback is created, the request sent and the result read only
  when there is a high-value id. (The list \<^verbatim>\<open>rejected_records\<close> computed inside this
  branch is computed again, from the same values, in step 6.)
\<close>

definition approval_flow ::
  "string \<Rightarrow> string list \<Rightarrow> callback_result \<Rightarrow> event list \<times> string list \<times> string list" where
  "approval_flow date high_value_ids result =
     (if high_value_ids \<noteq> [] then
        let approved_ids = payload_approved_ids result;
            rejected_ids = filter (\<lambda>i. i \<notin> set approved_ids) high_value_ids
        in ([Create_callback, Send_approval_request (length high_value_ids) date, Await_callback],
            approved_ids, rejected_ids)
      else ([], [], []))"

text \<open>
  The two list comprehensions of steps 5 and 6 over the list \<^verbatim>\<open>processed\<close> (here
  \<open>records\<close>, since \<open>processed\<close> is a field of the records).
\<close>

definition select_approved :: "enriched_record list \<Rightarrow> string list \<Rightarrow> enriched_record list" where
  "select_approved records approved_ids =
     filter (\<lambda>r. amount r < HIGH_VALUE_THRESHOLD \<or> id_of r \<in> set approved_ids) records"

definition select_rejected :: "enriched_record list \<Rightarrow> string list \<Rightarrow> enriched_record list" where
  "select_rejected records rejected_ids =
     filter (\<lambda>r. id_of r \<in> set rejected_ids) records"

text \<open>
  The approval gate as a whole: steps 3 and 4 on the enriched records, and the two
  selections that the handler makes from their result (the reconciliation result).
\<close>

definition approval_gate ::
  "string \<Rightarrow> enriched_record list \<Rightarrow> callback_result
     \<Rightarrow> event list \<times> enriched_record list \<times> enriched_record list" where
  "approval_gate date records result =
     (let high_value_ids = extract_high_value_ids records HIGH_VALUE_THRESHOLD;
          flow = approval_flow date high_value_ids result
      in (fst flow, select_approved records (fst (snd flow)),
          select_rejected records (snd (snd flow))))"

subsection \<open>Step 5: ledger synchronisation with retries and rate limit\<close>

text \<open>
  What a retry strategy can hand back to the runtime: a plain dictionary with the keys
  \<^verbatim>\<open>should_retry\<close> and \<^verbatim>\<open>delay\<close>, or an object that has them as attributes. The
  source never builds such an object.
\<close>

datatype strategy_result =
    Plain_dict bool nat
  | Retry_decision bool nat

text \<open>
  The retry strategy given to the step:
  \<^verbatim>\<open>lambda e, n: {'should_retry': n < 5, 'delay': min(5 * 2**(n-1), 60)}\<close>.
  It returns a plain dictionary. The runtime passes the number \<open>n\<close> of attempts made so
  far, counted from 1, so the strategy is given for \<open>n = Suc m\<close>, where \<^verbatim>\<open>2**(n-1)\<close>
  is \<open>2 ^ m\<close>.
\<close>

fun retry_strategy :: "py_error \<Rightarrow> nat \<Rightarrow> strategy_result" where
  "retry_strategy e (Suc m) = Plain_dict (Suc m < 5) (min (5 * 2 ^ m) 60)"

text \<open>
  Modelled from the spec: the step primitive of the durable runtime, which is not part of
  the repository (section 6, \<^verbatim>\<open>step(fn, retryPolicy)\<close>, and section 4.4). The runtime
  calls \<^verbatim>\<open>sync_to_external_api(batch)\<close>; when the call fails it calls the retry strategy
  with the error and the number of attempts made and reads the attributes
  \<^verbatim>\<open>should_retry\<close> and \<^verbatim>\<open>delay\<close> of what the strategy returns. A plain dictionary
  has no such attributes: reading them raises \<open>AttributeError\<close>, and the step ends with
  that error after the one call. From an object with the attributes the runtime would
  wait for the delay and call again, or fail the step with the error of the call.
  \<open>fails n\<close> tells whether attempt \<open>n\<close> (from 1) fails at the external ledger;
  \<open>made\<close> is the number of attempts already made. A successful call returns
  \<^verbatim>\<open>{'synced': len(records)}\<close>.
\<close>

function sync_step ::
  "(nat \<Rightarrow> bool) \<Rightarrow> enriched_record list \<Rightarrow> nat \<Rightarrow> event list \<times> (py_error + nat)" where
  "sync_step fails batch made =
     (if fails (Suc made) then
        (case retry_strategy SyncFailure (Suc made) of
           Plain_dict retry seconds \<Rightarrow> ([Sync_call batch], Inl AttributeError)
         | Retry_decision retry seconds \<Rightarrow>
            (if retry then
               (let rest = sync_step fails batch (Suc made)
                in (Sync_call batch # Retry_delay seconds # fst rest, snd rest))
             else ([Sync_call batch], Inl SyncFailure)))
      else ([Sync_call batch], Inr (length batch)))"
  by pat_completeness auto
termination
  by (relation "measure (\<lambda>(fails, batch, made). 5 - made)") auto

declare sync_step.simps [simp del]

text \<open>
  The body of the loop \<^verbatim>\<open>for i in range(0, len(approved_records), API_BATCH_SIZE)\<close>,
  over the offsets that are left. A failed step ends the loop with its error; after a
  successful step the handler waits when \<^verbatim>\<open>i + API_BATCH_SIZE < len(approved_records)\<close>.
  \<open>fails i n\<close> tells whether attempt \<open>n\<close> for the batch at offset \<open>i\<close> fails.
\<close>

fun sync_batches ::
  "(nat \<Rightarrow> nat \<Rightarrow> bool) \<Rightarrow> enriched_record list \<Rightarrow> nat list \<Rightarrow> event list \<times> (py_error + unit)" where
  "sync_batches fails approved_records [] = ([], Inr ())"
| "sync_batches fails approved_records (i # offsets) =
     (let batch = slice approved_records i API_BATCH_SIZE;
          step = sync_step (fails i) batch 0
      in case snd step of
           Inl e \<Rightarrow> (fst step, Inl e)
         | Inr synced \<Rightarrow>
            (let pause = (if i + API_BATCH_SIZE < length approved_records
                          then [Wait API_RATE_LIMIT_WAIT_SECONDS] else []);
                 rest = sync_batches fails approved_records offsets
             in (fst step @ pause @ fst rest, snd rest)))"

definition ledger_sync ::
  "(nat \<Rightarrow> nat \<Rightarrow> bool) \<Rightarrow> enriched_record list \<Rightarrow> event list \<times> (py_error + unit)" where
  "ledger_sync fails approved_records =
     sync_batches fails approved_records
       (range_step 0 (length approved_records) API_BATCH_SIZE)"

subsection \<open>Step 6: the reports\<close>

record report_result =
  summary_url :: string
  rejected_url :: "string option"

text \<open>
  \<^verbatim>\<open>generate_report\<close>: the rejected-detail object is written first and only when
  \<^verbatim>\<open>rejected_records\<close> is not empty; the summary object is written after it.
  \<^verbatim>\<open>rejected_url\<close> stays \<^verbatim>\<open>None\<close> when nothing was rejected.
\<close>

definition generate_report ::
  "string \<Rightarrow> string \<Rightarrow> enriched_record list \<Rightarrow> enriched_record list
     \<Rightarrow> event list \<times> report_result" where
  "generate_report bucket date approved_records rejected_records =
     (let rejected_key = ''rejected/'' @ date @ ''-rejected.json'';
          rejected_write =
            (if rejected_records \<noteq> [] then
               [Put_object bucket rejected_key
                  (Rejected_report date (length rejected_records)
                     (sum_list (map amount rejected_records)) rejected_records)]
             else []);
          rejected_location =
            (if rejected_records \<noteq> [] then Some (''s3://'' @ bucket @ ''/'' @ rejected_key)
             else None);
          approved_sales = sum_list (map amount approved_records);
          rejected_sales = sum_list (map amount rejected_records);
          summary_key = ''reports/'' @ date @ ''-report.json''
      in (rejected_write @
            [Put_object bucket summary_key
               (Summary_report date (length approved_records) (length rejected_records)
                  approved_sales rejected_sales)],
          \<lparr> summary_url = ''s3://'' @ bucket @ ''/'' @ summary_key,
            rejected_url = rejected_location \<rparr>))"

subsection \<open>The handler\<close>

text \<open>
  The dictionary returned by \<^verbatim>\<open>lambda_handler\<close>. The keys \<^verbatim>\<open>date\<close>,
  \<^verbatim>\<open>approved_records\<close> and \<^verbatim>\<open>rejected_records\<close> are the fields \<open>run_date\<close>,
  \<open>approved_count\<close> and \<open>rejected_count\<close>.
\<close>

record handler_result =
  status :: string
  run_date :: string
  total_records :: nat
  approved_count :: nat
  rejected_count :: nat
  report_url :: string

text \<open>
  \<^verbatim>\<open>lambda_handler\<close>. \<open>records\<close> is what \<^verbatim>\<open>fetch_sales_data\<close> returned for the
  date (reading and parsing the CSV object is not modelled), \<open>result\<close> what the approval
  callback delivers, \<open>fails\<close> the behaviour of the external ledger. The error of a ledger
  step ends the run; the events issued before it stay.
\<close>

definition lambda_handler ::
  "string \<Rightarrow> string \<Rightarrow> sales_record list \<Rightarrow> callback_result \<Rightarrow> (nat \<Rightarrow> nat \<Rightarrow> bool)
     \<Rightarrow> event list \<times> (py_error + handler_result)" where
  "lambda_handler bucket date records result fails =
     (let enriched = enrich_records records;
          high_value_ids = extract_high_value_ids enriched HIGH_VALUE_THRESHOLD;
          flow = approval_flow date high_value_ids result;
          approved_ids = fst (snd flow);
          rejected_ids = snd (snd flow);
          approved_records = select_approved enriched approved_ids;
          sync = ledger_sync fails approved_records
      in case snd sync of
           Inl e \<Rightarrow> (fst flow @ fst sync, Inl e)
         | Inr done_sync \<Rightarrow>
            (let rejected_records = select_rejected enriched rejected_ids;
                 report = generate_report bucket date approved_records rejected_records
             in (fst flow @ fst sync @ fst report,
                 Inr \<lparr> status = ''completed'', run_date = date,
                       total_records = length records,
                       approved_count = length approved_records,
                       rejected_count = length rejected_records,
                       report_url = summary_url (snd report) \<rparr>)))"

text \<open>Whether an event writes a rejected-detail report.\<close>

fun is_rejected_write :: "event \<Rightarrow> bool" where
  "is_rejected_write (Put_object bucket key (Rejected_report d n t rs)) = True"
| "is_rejected_write ev = False"


subsection \<open>The batches and the submission order as the specification words them\<close>

text \<open>
  Consecutive batches of a fixed size, the last one possibly smaller: the first \<open>n\<close>
  elements, then the batches of the rest.
\<close>

function consecutive_batches :: "nat \<Rightarrow> 'a list \<Rightarrow> 'a list list" where
  "consecutive_batches n xs =
     (if n = 0 \<or> xs = [] then [] else take n xs # consecutive_batches n (drop n xs))"
  by pat_completeness auto
termination
  by (relation "measure (\<lambda>(n, xs). length xs)") auto

declare consecutive_batches.simps [simp del]

text \<open>
  Strictly sequential submission without failures: one call per batch, in order, and a
  wait of 10 seconds between a batch and the next one, none after the last.
\<close>

fun sequential_submission :: "enriched_record list list \<Rightarrow> event list" where
  "sequential_submission [] = []"
| "sequential_submission [b] = [Sync_call b]"
| "sequential_submission (b # bs) = Sync_call b # Wait 10 # sequential_submission bs"

text \<open>
  The same with the events of each batch's step (its calls and retry delays) in place of
  the single call.
\<close>

fun interleave_waits :: "event list list \<Rightarrow> event list" where
  "interleave_waits [] = []"
| "interleave_waits [es] = es"
| "interleave_waits (es # ess) = es @ Wait 10 # interleave_waits ess"

subsection \<open>Sample inputs\<close>

text \<open>A record as \<^verbatim>\<open>generate_demo_data.py\<close> writes them, with a chosen id and amount.\<close>

definition sample_record :: "string \<Rightarrow> int \<Rightarrow> sales_record" where
  "sample_record i a =
     \<lparr> id_of = i, customer_name = ''A1'', product_of = ''dryer'', amount = a,
       quantity = 1, region = ''Tokyo'', category = ''beauty'',
       timestamp = ''2025-01-15T00:00:00'' \<rparr>"

text \<open>An enriched record with the exact tenth and eleven tenths as tax and total.\<close>

definition sample_enriched :: "string \<Rightarrow> int \<Rightarrow> enriched_record" where
  "sample_enriched i a =
     \<lparr> id_of = i, customer_name = ''A1'', product_of = ''dryer'', amount = a,
       quantity = 1, region = ''Tokyo'', category = ''beauty'',
       timestamp = ''2025-01-15T00:00:00'',
       tax = a div 10, total_of = 11 * a div 10, processed = True \<rparr>"

text \<open>
  Two external ledgers: one on which every attempt of every batch fails, and one on which
  no attempt fails.
\<close>

definition ledger_down :: "nat \<Rightarrow> nat \<Rightarrow> bool" where
  "ledger_down i n = True"

definition never_fails :: "nat \<Rightarrow> nat \<Rightarrow> bool" where
  "never_fails i n = False"

section \<open>Properties\<close>

subsection \<open>Rounding to a double\<close>

lemma bit_length_bounds: "0 < n \<Longrightarrow> 2 ^ (bit_length n - 1) \<le> n \<and> n < 2 ^ bit_length n"
proof (induction n rule: bit_length.induct)
  case (1 n)
  show ?case
  proof (cases "n div 2 = 0")
    case True
    with "1.prems" have "n = 1" by (cases n) auto
    then show ?thesis by (simp add: bit_length.simps)
  next
    case False
    with 1 have ih: "2 ^ (bit_length (n div 2) - 1) \<le> n div 2" "n div 2 < 2 ^ bit_length (n div 2)"
      by auto
    have pos: "0 < bit_length (n div 2)" using False by (simp add: bit_length.simps)
    have eq: "bit_length n = Suc (bit_length (n div 2))" using "1.prems" by (simp add: bit_length.simps)
    from pos obtain m where m: "bit_length (n div 2) = Suc m" by (cases "bit_length (n div 2)") auto
    show ?thesis using ih unfolding eq m by auto
  qed
qed

lemma bit_length_le:
  assumes "n < 2 ^ k" shows "bit_length n \<le> k"
proof (cases "n = 0")
  case True then show ?thesis by (simp add: bit_length.simps)
next
  case False
  with bit_length_bounds[of n] have "2 ^ (bit_length n - 1) \<le> n" by simp
  from this assms have "(2::nat) ^ (bit_length n - 1) < 2 ^ k" by (rule le_less_trans)
  then have "bit_length n - 1 < k" by simp
  then show ?thesis by simp
qed

lemma round_to_double_small: "N < 2 ^ 53 \<Longrightarrow> round_to_double N = N"
  using bit_length_le[of N 53] by (simp add: round_to_double_def)

lemma round_to_double_ge: "(N div 2 ^ (bit_length N - 53)) * 2 ^ (bit_length N - 53) \<le> round_to_double N"
proof (cases "bit_length N \<le> 53")
  case True then show ?thesis by (simp add: round_to_double_def)
next
  case False
  then show ?thesis by (simp add: round_to_double_def Let_def)
qed

lemma round_to_double_lower:
  assumes "bit_length N \<le> 53 + e"
  shows "N div 2 ^ e \<le> round_to_double N div 2 ^ e"
proof -
  define s where "s = bit_length N - 53"
  from assms have "s \<le> e" by (simp add: s_def)
  then obtain d where e: "e = s + d" by (auto simp: le_iff_add)
  have "N div 2 ^ e = (N div 2 ^ s) div 2 ^ d"
    by (simp add: e power_add div_mult2_eq)
  also have "\<dots> = ((N div 2 ^ s) * 2 ^ s) div 2 ^ e"
    by (simp add: e power_add div_mult2_eq)
  also have "\<dots> \<le> round_to_double N div 2 ^ e"
    using round_to_double_ge[of N] unfolding s_def by (rule div_le_mono)
  finally show ?thesis .
qed

lemma round_to_double_upper: "2 ^ 53 * round_to_double N \<le> (2 ^ 53 + 1) * N"
proof (cases "bit_length N \<le> 53")
  case True then show ?thesis by (simp add: round_to_double_def)
next
  case False
  define s where "s = bit_length N - 53"
  define h :: nat where "h = 2 ^ (s - 1)"
  from False have s1: "1 \<le> s" and bl: "bit_length N - 1 = 53 + (s - 1)" by (simp_all add: s_def)
  have two_h: "2 ^ s = 2 * h" using s1 unfolding h_def by (cases s) simp_all
  from False have "0 < N" by (cases "N = 0") (simp_all add: bit_length.simps)
  with bit_length_bounds[of N] have "2 ^ (bit_length N - 1) \<le> N" by simp
  then have big: "2 ^ 53 * h \<le> N" unfolding bl h_def by (simp add: power_add)
  have split: "N = (N div 2 ^ s) * 2 ^ s + N mod 2 ^ s" by (rule div_mult_mod_eq[symmetric])
  have "round_to_double N \<le> N + h"
  proof (cases "h < N mod 2 ^ s \<or> (N mod 2 ^ s = h \<and> odd (N div 2 ^ s))")
    case True
    then have r: "round_to_double N = (N div 2 ^ s + 1) * 2 ^ s"
      using False by (simp add: round_to_double_def Let_def s_def h_def)
    from True have "h \<le> N mod 2 ^ s" by auto
    then have "(N div 2 ^ s + 1) * 2 ^ s \<le> (N div 2 ^ s) * 2 ^ s + N mod 2 ^ s + h"
      by (simp add: two_h algebra_simps)
    with split r show ?thesis by simp
  next
    case F2: False
    then have r: "round_to_double N = (N div 2 ^ s) * 2 ^ s"
      using False by (simp add: round_to_double_def Let_def s_def h_def)
    show ?thesis using split unfolding r by linarith
  qed
  then have "2 ^ 53 * round_to_double N \<le> 2 ^ 53 * N + 2 ^ 53 * h"
    by (simp add: algebra_simps)
  with big show ?thesis by (simp add: algebra_simps)
qed

lemma tax_numerator:
  fixes a :: nat
  assumes "a < 2 ^ 48"
  shows "round_to_double (a * 3602879701896397) div 2 ^ 55 = a div 10"
proof -
  define p where "p = round_to_double (a * 3602879701896397)"
  define k where "k = a div 10"
  have ak: "10 * k \<le> a" "a < 10 * k + 10" unfolding k_def by auto
  have "a * 3602879701896397 < 2 ^ 108" using assms by simp
  then have "bit_length (a * 3602879701896397) \<le> 53 + 55"
    using bit_length_le[of "a * 3602879701896397" 108] by simp
  then have "(a * 3602879701896397) div 2 ^ 55 \<le> p div 2 ^ 55"
    unfolding p_def by (rule round_to_double_lower)
  moreover have "k \<le> (a * 3602879701896397) div 2 ^ 55"
  proof -
    have "k * 2 ^ 55 \<le> a * 3602879701896397" using ak by simp
    then show ?thesis by (simp add: less_eq_div_iff_mult_less_eq)
  qed
  ultimately have lo: "k \<le> p div 2 ^ 55" by simp
  have "2 ^ 53 * p \<le> (2 ^ 53 + 1) * (a * 3602879701896397)"
    unfolding p_def by (rule round_to_double_upper)
  then have "p < (k + 1) * 2 ^ 55" using ak assms by simp
  then have hi: "p div 2 ^ 55 < k + 1" by (simp add: div_less_iff_less_mult)
  from lo hi show ?thesis unfolding p_def k_def by simp
qed

lemma total_numerator:
  fixes a :: nat
  assumes "a < 2 ^ 48"
  shows "round_to_double (a * 2476979795053773) div 2 ^ 51 = 11 * a div 10"
proof -
  define p where "p = round_to_double (a * 2476979795053773)"
  define k where "k = 11 * a div 10"
  have ak: "10 * k \<le> 11 * a" "11 * a < 10 * k + 10" unfolding k_def by auto
  have "a * 2476979795053773 < 2 ^ 104" using assms by simp
  then have "bit_length (a * 2476979795053773) \<le> 53 + 51"
    using bit_length_le[of "a * 2476979795053773" 104] by simp
  then have "(a * 2476979795053773) div 2 ^ 51 \<le> p div 2 ^ 51"
    unfolding p_def by (rule round_to_double_lower)
  moreover have "k \<le> (a * 2476979795053773) div 2 ^ 51"
  proof -
    have "k * 2 ^ 51 \<le> a * 2476979795053773" using ak by simp
    then show ?thesis by (simp add: less_eq_div_iff_mult_less_eq)
  qed
  ultimately have lo: "k \<le> p div 2 ^ 51" by simp
  have "2 ^ 53 * p \<le> (2 ^ 53 + 1) * (a * 2476979795053773)"
    unfolding p_def by (rule round_to_double_upper)
  then have "p < (k + 1) * 2 ^ 51" using ak assms by simp
  then have hi: "p div 2 ^ 51 < k + 1" by (simp add: div_less_iff_less_mult)
  from lo hi show ?thesis unfolding p_def k_def by simp
qed

lemma times_0_1_exact:
  assumes "0 < a" "a < 2 ^ 48"
  shows "times_0_1 a = Inr (a div 10)"
proof -
  define n where "n = nat a"
  from assms have n: "n < 2 ^ 48" "a = int n" by (simp_all add: n_def nat_less_iff)
  then have "n < 2 ^ 53" by simp
  then have fa: "round_to_double n = n" by (rule round_to_double_small)
  have q: "round_to_double (n * 3602879701896397) div 2 ^ 55 = n div 10"
    using n(1) by (rule tax_numerator)
  have "n div 10 < 2 ^ 1024" using n(1) by simp
  then have "round_to_double (n * 3602879701896397) div 2 ^ 55 < 2 ^ 1024" by (simp only: q)
  then have small: "round_to_double (n * 3602879701896397) < 2 ^ (1024 + 55)"
    by (simp add: div_less_iff_less_mult power_add)
  have "n < 2 ^ 1024" using n(1) by simp
  with fa small q assms(1) show ?thesis
    by (simp add: times_0_1_def int_of_product_def Let_def n(2) zdiv_int del: power_numeral)
qed

lemma times_1_1_exact:
  assumes "0 < a" "a < 2 ^ 48"
  shows "times_1_1 a = Inr (11 * a div 10)"
proof -
  define n where "n = nat a"
  from assms have n: "n < 2 ^ 48" "a = int n" by (simp_all add: n_def nat_less_iff)
  then have "n < 2 ^ 53" by simp
  then have fa: "round_to_double n = n" by (rule round_to_double_small)
  have q: "round_to_double (n * 2476979795053773) div 2 ^ 51 = 11 * n div 10"
    using n(1) by (rule total_numerator)
  have "11 * n div 10 < 2 ^ 1024" using n(1) by simp
  then have "round_to_double (n * 2476979795053773) div 2 ^ 51 < 2 ^ 1024" by (simp only: q)
  then have small: "round_to_double (n * 2476979795053773) < 2 ^ (1024 + 51)"
    by (simp add: div_less_iff_less_mult power_add)
  have "n < 2 ^ 1024" using n(1) by simp
  with fa small q assms(1) show ?thesis
    by (simp add: times_1_1_def int_of_product_def Let_def n(2) zdiv_int del: power_numeral)
qed

lemmas double_eval =
  times_0_1_def times_1_1_def int_of_product_def round_to_double_def bit_length.simps Let_def

subsection \<open>Enrichment of a record\<close>

text \<open>
  C3 (amended). For every record with an amount \<open>a\<close> with \<open>0 < a < 2^48\<close>, enrichment
  succeeds and yields \<open>tax = floor(a / 10)\<close> and \<open>total = floor(11 * a / 10)\<close> in exact
  arithmetic (\<open>div\<close> on integers is the floor of the quotient). The bound is there because
  the code multiplies by the doubles 0.1 and 1.1 and truncates the rounded product.
\<close>

theorem process_record_tax_total:
  assumes "0 < amount r" and "amount r < 2 ^ 48"
  shows "\<exists>e. process_record r = Inr e \<and> tax e = amount r div 10
           \<and> total_of e = 11 * amount r div 10"
  using times_0_1_exact[OF assms] times_1_1_exact[OF assms]
  by (simp add: process_record_def)

theorem process_record_tax_total_witness:
  "\<exists>e. process_record (sample_record ''00001'' 1234567) = Inr e
        \<and> tax e = 123456 \<and> total_of e = 1358023"
  using process_record_tax_total[of "sample_record ''00001'' 1234567"]
  by (simp add: sample_record_def)

text \<open>
  C3 as stated fails for large amounts: at the amount 511772684928469 (below \<open>2^49\<close>) the
  product with the double 1.1 rounds up to the next integer, and the total is one more than
  \<open>floor(11 * a / 10)\<close>.
\<close>

theorem process_record_total_counterexample:
  "0 < amount (sample_record ''00001'' 511772684928469)
   \<and> map_sum id total_of (process_record (sample_record ''00001'' 511772684928469))
       = Inr 562949953421316
   \<and> 11 * amount (sample_record ''00001'' 511772684928469) div 10 = 562949953421315"
  by (simp add: sample_record_def process_record_def double_eval)

subsection \<open>The approval gate\<close>

lemma high_value_id_iff:
  assumes "distinct (map id_of records)" and "r \<in> set records"
  shows "id_of r \<in> set (extract_high_value_ids records threshold) \<longleftrightarrow> threshold \<le> amount r"
proof
  assume "id_of r \<in> set (extract_high_value_ids records threshold)"
  then obtain r' where r': "r' \<in> set records" "threshold \<le> amount r'" "id_of r' = id_of r"
    by (auto simp: extract_high_value_ids_def)
  from assms(1) have "inj_on id_of (set records)" by (simp add: distinct_map)
  with r' assms(2) have "r' = r" by (auto dest: inj_onD)
  with r' show "threshold \<le> amount r" by simp
next
  assume "threshold \<le> amount r"
  with assms(2) show "id_of r \<in> set (extract_high_value_ids records threshold)"
    by (auto simp: extract_high_value_ids_def)
qed

lemma extract_empty_iff:
  "extract_high_value_ids records threshold = [] \<longleftrightarrow> (\<forall>r \<in> set records. amount r < threshold)"
  by (auto simp: extract_high_value_ids_def filter_empty_conv)

lemma select_rejected_complement:
  assumes "distinct (map id_of records)"
  shows "snd (snd (approval_gate date records result))
           = filter (\<lambda>r. r \<notin> set (fst (snd (approval_gate date records result)))) records"
proof (cases "extract_high_value_ids records HIGH_VALUE_THRESHOLD = []")
  case True
  then have "\<forall>r \<in> set records. amount r < HIGH_VALUE_THRESHOLD" by (simp add: extract_empty_iff)
  with True show ?thesis
    by (simp add: approval_gate_def approval_flow_def select_approved_def select_rejected_def)
next
  case False
  have "id_of r \<in> set (filter (\<lambda>i. i \<notin> set (payload_approved_ids result))
                           (extract_high_value_ids records HIGH_VALUE_THRESHOLD))
        \<longleftrightarrow> \<not> (amount r < HIGH_VALUE_THRESHOLD \<or> id_of r \<in> set (payload_approved_ids result))"
    if "r \<in> set records" for r
    using high_value_id_iff[OF assms that, of HIGH_VALUE_THRESHOLD] by auto
  with False show ?thesis
    by (auto simp: approval_gate_def approval_flow_def select_approved_def select_rejected_def
        Let_def intro!: filter_cong)
qed

text \<open>
  C1. For high-value ids \<open>H\<close> and a payload with approved ids \<open>A\<close>, the rejected ids are
  \<open>H - (A \<inter> H)\<close>; no payload and a payload without the key are the same as the empty
  list of approved ids; and the ids of \<open>A\<close> outside \<open>H\<close> change nothing of the gate's
  result (events, approved records, rejected records).
\<close>

theorem approval_gate_rejected_ids:
  "set (snd (snd (approval_flow date H (Approved_ids A)))) = set H - (set A \<inter> set H)
   \<and> approval_flow date H No_result = approval_flow date H (Approved_ids [])
   \<and> approval_flow date H Approved_ids_absent = approval_flow date H (Approved_ids [])
   \<and> approval_gate date records (Approved_ids A)
       = approval_gate date records
           (Approved_ids (filter (\<lambda>i. i \<in> set (extract_high_value_ids records HIGH_VALUE_THRESHOLD)) A))"
proof -
  have 1: "set (snd (snd (approval_flow date H (Approved_ids A)))) = set H - (set A \<inter> set H)"
    by (auto simp: approval_flow_def)
  have 2: "approval_flow date H No_result = approval_flow date H (Approved_ids [])"
    "approval_flow date H Approved_ids_absent = approval_flow date H (Approved_ids [])"
    by (simp_all add: approval_flow_def)
  let ?H = "extract_high_value_ids records HIGH_VALUE_THRESHOLD"
  have a: "select_approved records A = select_approved records (filter (\<lambda>i. i \<in> set ?H) A)"
    unfolding select_approved_def
    by (rule filter_cong) (auto simp: extract_high_value_ids_def)
  have r: "filter (\<lambda>i. i \<notin> set A) ?H = filter (\<lambda>i. i \<notin> set (filter (\<lambda>i. i \<in> set ?H) A)) ?H"
    by (rule filter_cong) auto
  have 3: "approval_gate date records (Approved_ids A)
       = approval_gate date records (Approved_ids (filter (\<lambda>i. i \<in> set ?H) A))"
    using a r by (simp add: approval_gate_def approval_flow_def Let_def)
  from 1 2 3 show ?thesis by simp
qed

theorem approval_gate_rejected_ids_witness:
  "set (snd (snd (approval_flow ''2025-01-15'' [''00002'', ''00003'']
                    (Approved_ids [''00002'', ''00009'']))))
     = set [''00002'', ''00003''] - (set [''00002'', ''00009''] \<inter> set [''00002'', ''00003''])
   \<and> snd (snd (approval_flow ''2025-01-15'' [''00002'', ''00003'']
                    (Approved_ids [''00002'', ''00009'']))) = [''00003'']"
proof -
  have c: "snd (snd (approval_flow ''2025-01-15'' [''00002'', ''00003'']
                    (Approved_ids [''00002'', ''00009'']))) = [''00003'']"
    by (simp add: approval_flow_def)
  from c approval_gate_rejected_ids[of "''2025-01-15''" "[''00002'', ''00003'']"
          "[''00002'', ''00009'']" "[]"]
  show ?thesis by iprover
qed

text \<open>
  C2. When the ids of the enriched records are unique, the approved and the rejected
  records are a partition of the records: together they are all records, no record is in
  both, each list holds the records that are not in the other, and the lengths add up.
\<close>

theorem approval_gate_partition:
  assumes "distinct (map id_of records)"
    and "approval_gate date records result = (events, approved, rejected)"
  shows "set approved \<union> set rejected = set records
         \<and> set approved \<inter> set rejected = {}
         \<and> rejected = filter (\<lambda>r. r \<notin> set approved) records
         \<and> approved = filter (\<lambda>r. r \<notin> set rejected) records
         \<and> length approved + length rejected = length records"
proof -
  have ap: "approved = select_approved records (fst (snd (approval_flow date
              (extract_high_value_ids records HIGH_VALUE_THRESHOLD) result)))"
    using assms(2) by (simp add: approval_gate_def Let_def)
  define P :: "enriched_record \<Rightarrow> bool" where "P = (\<lambda>r. amount r < HIGH_VALUE_THRESHOLD \<or> id_of r \<in> set (fst (snd (approval_flow date
              (extract_high_value_ids records HIGH_VALUE_THRESHOLD) result))))"
  have a: "approved = filter P records" using ap by (simp add: select_approved_def P_def)
  have "rejected = filter (\<lambda>r. r \<notin> set approved) records"
    using select_rejected_complement[OF assms(1), of date result] assms(2) by simp
  then have r: "rejected = filter (\<lambda>r. \<not> P r) records"
    unfolding a by (auto intro: filter_cong)
  have "approved = filter (\<lambda>r. r \<notin> set rejected) records"
    unfolding a r by (auto intro: filter_cong)
  moreover have "length approved + length rejected = length records"
    unfolding a r by (rule sum_length_filter_compl)
  moreover have "set approved \<union> set rejected = set records" "set approved \<inter> set rejected = {}"
    unfolding a r by auto
  moreover note \<open>rejected = filter (\<lambda>r. r \<notin> set approved) records\<close>
  ultimately show ?thesis by simp
qed

theorem approval_gate_partition_witness:
  "distinct (map id_of [sample_enriched ''00001'' 5000, sample_enriched ''00002'' 2000000,
          sample_enriched ''00003'' 3000000])
   \<and> approval_gate ''2025-01-15''
         [sample_enriched ''00001'' 5000, sample_enriched ''00002'' 2000000,
          sample_enriched ''00003'' 3000000] (Approved_ids [''00002''])
       = ([Create_callback, Send_approval_request 2 ''2025-01-15'', Await_callback],
          [sample_enriched ''00001'' 5000, sample_enriched ''00002'' 2000000],
          [sample_enriched ''00003'' 3000000])
   \<and> set [sample_enriched ''00001'' 5000, sample_enriched ''00002'' 2000000]
         \<inter> set [sample_enriched ''00003'' 3000000] = {}
   \<and> length [sample_enriched ''00001'' 5000, sample_enriched ''00002'' 2000000]
        + length [sample_enriched ''00003'' 3000000]
       = length [sample_enriched ''00001'' 5000, sample_enriched ''00002'' 2000000,
          sample_enriched ''00003'' 3000000]"
proof -
  let ?rs = "[sample_enriched ''00001'' 5000, sample_enriched ''00002'' 2000000,
          sample_enriched ''00003'' 3000000]"
  have d: "distinct (map id_of ?rs)" by (simp add: sample_enriched_def)
  have g: "approval_gate ''2025-01-15'' ?rs (Approved_ids [''00002''])
       = ([Create_callback, Send_approval_request 2 ''2025-01-15'', Await_callback],
          [sample_enriched ''00001'' 5000, sample_enriched ''00002'' 2000000],
          [sample_enriched ''00003'' 3000000])"
    by (simp add: approval_gate_def approval_flow_def extract_high_value_ids_def
        select_approved_def select_rejected_def HIGH_VALUE_THRESHOLD_def sample_enriched_def)
  from d g approval_gate_partition[OF d g] show ?thesis by iprover
qed

text \<open>
  C5. When no record has an amount of at least the threshold, the gate issues no event
  (no callback is created, no request is sent, no result is awaited), every record is
  approved and none is rejected.
\<close>

theorem approval_gate_no_high_value:
  assumes "\<forall>r \<in> set records. amount r < HIGH_VALUE_THRESHOLD"
  shows "approval_gate date records result = ([], records, [])"
proof -
  from assms have "extract_high_value_ids records HIGH_VALUE_THRESHOLD = []"
    by (simp add: extract_empty_iff)
  with assms show ?thesis
    by (simp add: approval_gate_def approval_flow_def select_approved_def select_rejected_def)
qed

theorem approval_gate_no_high_value_witness:
  "approval_gate ''2025-01-15''
     [sample_enriched ''00001'' 5000, sample_enriched ''00002'' 999999] (Approved_ids [''00001''])
   = ([], [sample_enriched ''00001'' 5000, sample_enriched ''00002'' 999999], [])"
  by (rule approval_gate_no_high_value)
     (simp add: HIGH_VALUE_THRESHOLD_def sample_enriched_def)

subsection \<open>The reports\<close>

text \<open>
  C7. \<^verbatim>\<open>generate_report\<close> always writes the summary object with the counts and the
  total amounts of both lists; it writes the rejected-detail object exactly when the
  rejected list is not empty, and the rejected location is \<^verbatim>\<open>None\<close> exactly when the
  list is empty.
\<close>

theorem generate_report_outputs:
  "Put_object bucket (''reports/'' @ date @ ''-report.json'')
       (Summary_report date (length approved) (length rejected)
          (sum_list (map amount approved)) (sum_list (map amount rejected)))
     \<in> set (fst (generate_report bucket date approved rejected))
   \<and> (Put_object bucket (''rejected/'' @ date @ ''-rejected.json'')
         (Rejected_report date (length rejected) (sum_list (map amount rejected)) rejected)
       \<in> set (fst (generate_report bucket date approved rejected))) = (rejected \<noteq> [])
   \<and> list_ex is_rejected_write (fst (generate_report bucket date approved rejected))
       = (rejected \<noteq> [])
   \<and> (rejected_url (snd (generate_report bucket date approved rejected)) = None)
       = (rejected = [])
   \<and> (rejected_url (snd (generate_report bucket date approved rejected))
        = Some (''s3://'' @ bucket @ ''/rejected/'' @ date @ ''-rejected.json''))
       = (rejected \<noteq> [])
   \<and> summary_url (snd (generate_report bucket date approved rejected))
       = ''s3://'' @ bucket @ ''/reports/'' @ date @ ''-report.json''"
  by (simp add: generate_report_def Let_def)

theorem generate_report_outputs_witness:
  "fst (generate_report ''bucket'' ''2025-01-15''
          [sample_enriched ''00001'' 5000] [sample_enriched ''00002'' 2000000])
     = [Put_object ''bucket'' ''rejected/2025-01-15-rejected.json''
          (Rejected_report ''2025-01-15'' 1 2000000 [sample_enriched ''00002'' 2000000]),
        Put_object ''bucket'' ''reports/2025-01-15-report.json''
          (Summary_report ''2025-01-15'' 1 1 5000 2000000)]
   \<and> (rejected_url (snd (generate_report ''bucket'' ''2025-01-15''
          [sample_enriched ''00001'' 5000] [sample_enriched ''00002'' 2000000])) = None)
       = ([sample_enriched ''00002'' 2000000] = [])
   \<and> (rejected_url (snd (generate_report ''bucket'' ''2025-01-15''
          [sample_enriched ''00001'' 5000] [])) = None) = ([] = ([] :: enriched_record list))"
proof -
  have ev: "fst (generate_report ''bucket'' ''2025-01-15''
          [sample_enriched ''00001'' 5000] [sample_enriched ''00002'' 2000000])
     = [Put_object ''bucket'' ''rejected/2025-01-15-rejected.json''
          (Rejected_report ''2025-01-15'' 1 2000000 [sample_enriched ''00002'' 2000000]),
        Put_object ''bucket'' ''reports/2025-01-15-report.json''
          (Summary_report ''2025-01-15'' 1 1 5000 2000000)]"
    by (simp add: generate_report_def Let_def sample_enriched_def)
  from ev
    generate_report_outputs[of "''bucket''" "''2025-01-15''"
          "[sample_enriched ''00001'' 5000]" "[sample_enriched ''00002'' 2000000]"]
    generate_report_outputs[of "''bucket''" "''2025-01-15''"
          "[sample_enriched ''00001'' 5000]" "[]"]
  show ?thesis by iprover
qed

subsection \<open>The enrichment of all records\<close>

lemma concat_slices:
  "0 < n \<Longrightarrow> concat (map (\<lambda>i. slice xs i n) (range_step i (length xs) n)) = drop i xs"
proof (induction i "length xs" n rule: range_step.induct)
  case (1 start step)
  show ?case
  proof (cases "start < length xs")
    case True
    have "take step (drop start xs) @ drop (start + step) xs = drop start xs"
      by (metis add.commute append_take_drop_id drop_drop)
    with True 1 show ?thesis
      by (subst range_step.simps) (simp add: slice_def)
  next
    case False
    then show ?thesis by (subst range_step.simps) simp
  qed
qed


lemma map_raising_append:
  "map_raising f (xs @ ys) =
     (case map_raising f xs of
        Inl e \<Rightarrow> Inl e
      | Inr a \<Rightarrow> (case map_raising f ys of Inl e \<Rightarrow> Inl e | Inr b \<Rightarrow> Inr (a @ b)))"
  by (induction xs) (auto split: sum.splits)

lemma map_raising_concat:
  "map_raising f (concat xss) =
     (case map_raising (map_raising f) xss of
        Inl e \<Rightarrow> Inl e
      | Inr yss \<Rightarrow> Inr (concat yss))"
  by (induction xss) (auto simp: map_raising_append split: sum.splits)

lemma map_enumerate_snd: "map (\<lambda>(i, x). g x) (enumerate n xs) = map g xs"
  by (induction xs arbitrary: n) auto

lemma map_batches_eq:
  "map_batches batches =
     concat (map (\<lambda>batch. case map_raising process_record batch of
                            Inl e \<Rightarrow> [] | Inr batch_result \<Rightarrow> [batch_result]) batches)"
  by (simp add: map_batches_def process_batch_def map_enumerate_snd)

lemma successful_batches:
  "map_raising (map_raising f) bs = Inr rss \<Longrightarrow>
     concat (map (\<lambda>b. case map_raising f b of Inl e \<Rightarrow> [] | Inr r \<Rightarrow> [r]) bs) = rss"
  by (induction bs arbitrary: rss) (auto split: sum.splits)

lemma concat_batches_of: "concat (batches_of records) = records"
  using concat_slices[of BATCH_SIZE records 0] by (simp add: batches_of_def BATCH_SIZE_def)

lemma map_batches_all_successful:
  assumes "map_raising process_record records = Inr enriched"
  shows "map_raising (map_raising process_record) (batches_of records)
           = Inr (map_batches (batches_of records))"
    and "enrich_records records = enriched"
proof -
  from assms have "map_raising process_record (concat (batches_of records)) = Inr enriched"
    by (simp add: concat_batches_of)
  then obtain rss where rss:
    "map_raising (map_raising process_record) (batches_of records) = Inr rss"
    "concat rss = enriched"
    by (auto simp: map_raising_concat split: sum.splits)
  from rss(1) have m: "map_batches (batches_of records) = rss"
    unfolding map_batches_eq by (rule successful_batches)
  with rss show "map_raising (map_raising process_record) (batches_of records)
           = Inr (map_batches (batches_of records))"
    and "enrich_records records = enriched"
    by (simp_all add: enrich_records_def)
qed







lemma process_sample_record:
  assumes "0 < a" "a < 2 ^ 48"
  shows "process_record (sample_record i a) = Inr (sample_enriched i a)"
proof -
  have "0 < amount (sample_record i a)" "amount (sample_record i a) < 2 ^ 48"
    using assms by (simp_all add: sample_record_def)
  from times_0_1_exact[OF this] times_1_1_exact[OF this] show ?thesis
    by (simp add: process_record_def sample_record_def sample_enriched_def)
qed

lemma enrich_sample_records:
  assumes "0 < a" "a < 2 ^ 48" "0 < b" "b < 2 ^ 48"
  shows "enrich_records [sample_record i a, sample_record j b]
           = [sample_enriched i a, sample_enriched j b]"
proof (rule map_batches_all_successful(2))
  have "process_record (sample_record i a) = Inr (sample_enriched i a)"
    using assms(1,2) by (rule process_sample_record)
  moreover have "process_record (sample_record j b) = Inr (sample_enriched j b)"
    using assms(3,4) by (rule process_sample_record)
  ultimately show "map_raising process_record [sample_record i a, sample_record j b]
                     = Inr [sample_enriched i a, sample_enriched j b]"
    by simp
qed




subsection \<open>Enrichment as a function of the record\<close>

lemma process_record_truncate:
  assumes "process_record r = Inr e"
  shows "sales_record.truncate e = r" and "amount e = amount r"
  using assms
  by (auto simp: process_record_def sales_record.truncate_def split: sum.splits)

text \<open>
  C9. Enrichment is a function of the record alone. When it succeeds, enriching the base
  fields of its output again gives the same enriched record, so the same tax and total;
  the result for a batch does not depend on the index of the batch or on the list of all
  batches, and is the enrichment of its records one by one; so is the merged result of all
  batches, whatever the batches are, when no record raises.
\<close>

theorem process_record_idempotent:
  assumes "process_record r = Inr e"
  shows "process_record (sales_record.truncate e) = Inr e
         \<and> process_batch batch i batches = process_batch batch j batches'
         \<and> process_batch batch i batches = map_raising process_record batch
         \<and> (map_raising process_record records = Inr enriched
              \<longrightarrow> enrich_records records = enriched)"
  using assms process_record_truncate(1)[OF assms]
  by (simp add: process_batch_def map_batches_all_successful(2))

theorem process_record_idempotent_witness:
  "process_record (sample_record ''00001'' 1234567)
     = Inr (sales_record.extend (sample_record ''00001'' 1234567)
              (enriched_record.fields 123456 1358023 True))
   \<and> process_record (sales_record.truncate (sales_record.extend (sample_record ''00001'' 1234567)
              (enriched_record.fields 123456 1358023 True)))
     = Inr (sales_record.extend (sample_record ''00001'' 1234567)
              (enriched_record.fields 123456 1358023 True))"
proof -
  have e: "process_record (sample_record ''00001'' 1234567)
     = Inr (sales_record.extend (sample_record ''00001'' 1234567)
              (enriched_record.fields 123456 1358023 True))"
    by (simp add: sample_record_def process_record_def double_eval sales_record.extend_def
        enriched_record.fields_def)
  from process_record_idempotent[OF e] e show ?thesis by simp
qed

subsection \<open>The ledger synchronisation\<close>

lemma range_step_eq_Nil: "range_step start stop step = [] \<longleftrightarrow> \<not> (start < stop \<and> 0 < step)"
  by (subst range_step.simps) simp

lemma slices_eq_consecutive:
  "0 < n \<Longrightarrow> map (\<lambda>i. slice xs i n) (range_step i (length xs) n) = consecutive_batches n (drop i xs)"
proof (induction i "length xs" n rule: range_step.induct)
  case (1 start step)
  show ?case
  proof (cases "start < length xs")
    case True
    with 1 have "map (\<lambda>i. slice xs i step) (range_step (start + step) (length xs) step)
                  = consecutive_batches step (drop (start + step) xs)" by simp
    moreover have "drop step (drop start xs) = drop (start + step) xs" by (simp add: add.commute)
    ultimately show ?thesis using True 1(2)
      by (subst range_step.simps, subst consecutive_batches.simps) (simp add: slice_def)
  next
    case False
    then show ?thesis
      by (subst range_step.simps, subst consecutive_batches.simps) simp
  qed
qed

lemma concat_consecutive_batches: "0 < n \<Longrightarrow> concat (consecutive_batches n xs) = xs"
  by (induction n xs rule: consecutive_batches.induct; subst consecutive_batches.simps) auto

lemma consecutive_batches_sizes:
  "b \<in> set (consecutive_batches n xs) \<Longrightarrow> 0 < length b \<and> length b \<le> n"
  by (induction n xs rule: consecutive_batches.induct; subst (asm) consecutive_batches.simps)
     (auto split: if_splits)

lemma consecutive_batches_full:
  "b \<in> set (butlast (consecutive_batches n xs)) \<Longrightarrow> length b = n"
proof (induction n xs rule: consecutive_batches.induct)
  case (1 n xs)
  show ?case
  proof (cases "n = 0 \<or> xs = []")
    case True
    with "1.prems" show ?thesis by (subst (asm) consecutive_batches.simps) simp
  next
    case False
    with "1.prems" have mem: "b \<in> set (butlast (take n xs # consecutive_batches n (drop n xs)))"
      by (subst (asm) consecutive_batches.simps) simp
    show ?thesis
    proof (cases "consecutive_batches n (drop n xs) = []")
      case True
      with mem show ?thesis by simp
    next
      case F2: False
      then have "drop n xs \<noteq> []" by (subst (asm) consecutive_batches.simps) (auto split: if_splits)
      then have "n \<le> length xs" by simp
      then have "length (take n xs) = n" by simp
      with mem F2 "1.IH"[OF False] show ?thesis by auto
    qed
  qed
qed

lemma sync_step_first_success:
  "\<not> fails (Suc made) \<Longrightarrow> sync_step fails batch made = ([Sync_call batch], Inr (length batch))"
  by (subst sync_step.simps) simp


lemma interleave_waits_Cons:
  "interleave_waits (es # ess) = es @ (if ess = [] then [] else Wait 10 # interleave_waits ess)"
  by (cases ess) simp_all

lemma sync_batches_success:
  assumes "n = API_BATCH_SIZE"
    and "\<forall>i \<in> set (range_step start (length xs) n).
           \<exists>k. snd (sync_step (fails i) (slice xs i n) 0) = Inr k"
  shows "sync_batches fails xs (range_step start (length xs) n) =
           (interleave_waits
              (map (\<lambda>i. fst (sync_step (fails i) (slice xs i n) 0))
                 (range_step start (length xs) n)), Inr ())"
  using assms
proof (induction start "length xs" n rule: range_step.induct)
  case (1 start step)
  have pos: "0 < step" using "1.prems"(1) by (simp add: API_BATCH_SIZE_def)
  show ?case
  proof (cases "start < length xs")
    case False
    then have "range_step start (length xs) step = []" by (simp add: range_step_eq_Nil)
    then show ?thesis by simp
  next
    case True
    with pos have unf: "range_step start (length xs) step =
        start # range_step (start + step) (length xs) step"
      by (subst range_step.simps) simp
    from "1.prems"(2) obtain k where
      k: "snd (sync_step (fails start) (slice xs start step) 0) = Inr k"
      unfolding unf by auto
    from "1.prems"(2) have rest: "\<forall>i \<in> set (range_step (start + step) (length xs) step).
           \<exists>k. snd (sync_step (fails i) (slice xs i step) 0) = Inr k"
      unfolding unf by simp
    from True pos have ih: "sync_batches fails xs (range_step (start + step) (length xs) step) =
           (interleave_waits
              (map (\<lambda>i. fst (sync_step (fails i) (slice xs i step) 0))
                 (range_step (start + step) (length xs) step)), Inr ())"
      using "1.hyps"[OF _ "1.prems"(1) rest] by simp
    show ?thesis
    proof (cases "start + step < length xs")
      case T2: True
      with pos have "range_step (start + step) (length xs) step \<noteq> []"
        by (simp add: range_step_eq_Nil)
      with T2 k ih "1.prems"(1) show ?thesis
        unfolding unf
        by (simp add: Let_def interleave_waits_Cons API_RATE_LIMIT_WAIT_SECONDS_def
            del: interleave_waits.simps)
    next
      case F2: False
      then have e: "range_step (start + step) (length xs) step = []"
        by (simp add: range_step_eq_Nil)
      from F2 k "1.prems"(1) show ?thesis
        unfolding unf e by (simp add: Let_def)
    qed
  qed
qed

lemma interleave_single_calls:
  "interleave_waits (map (\<lambda>b. [Sync_call b]) bs) = sequential_submission bs"
  by (induction bs rule: sequential_submission.induct) simp_all

lemma sync_step_never_fails:
  "sync_step (never_fails i) batch 0 = ([Sync_call batch], Inr (length batch))"
  by (rule sync_step_first_success) (simp add: never_fails_def)

lemma ledger_sync_empty: "ledger_sync fails [] = ([], Inr ())"
  by (simp add: ledger_sync_def range_step.simps)


text \<open>
  C6. The batches of the ledger synchronisation are the consecutive batches of 1000
  records (their concatenation is the list, every batch but the last has 1000 records, the
  last has between 1 and 1000). When no call fails, the events are one call per batch, in
  order, with a wait of 10 seconds after every batch but the last. In general, when the
  step of every batch succeeds, the events are the events of the steps in order, with a
  wait of 10 seconds after every step but the last.
\<close>

theorem ledger_sync_sequential:
  "map (\<lambda>i. slice approved_records i API_BATCH_SIZE)
       (range_step 0 (length approved_records) API_BATCH_SIZE)
     = consecutive_batches 1000 approved_records
   \<and> concat (consecutive_batches 1000 approved_records) = approved_records
   \<and> (\<forall>b \<in> set (consecutive_batches 1000 approved_records). 0 < length b \<and> length b \<le> 1000)
   \<and> (\<forall>b \<in> set (butlast (consecutive_batches 1000 approved_records)). length b = 1000)
   \<and> ledger_sync never_fails approved_records
       = (sequential_submission (consecutive_batches 1000 approved_records), Inr ())
   \<and> ((\<forall>i \<in> set (range_step 0 (length approved_records) API_BATCH_SIZE).
          \<exists>k. snd (sync_step (fails i) (slice approved_records i API_BATCH_SIZE) 0) = Inr k)
       \<longrightarrow> ledger_sync fails approved_records
            = (interleave_waits
                 (map (\<lambda>i. fst (sync_step (fails i) (slice approved_records i API_BATCH_SIZE) 0))
                    (range_step 0 (length approved_records) API_BATCH_SIZE)), Inr ()))"
proof -
  let ?offsets = "range_step 0 (length approved_records) API_BATCH_SIZE"
  have batches: "map (\<lambda>i. slice approved_records i API_BATCH_SIZE) ?offsets
                   = consecutive_batches 1000 approved_records"
    using slices_eq_consecutive[of 1000 approved_records 0] by (simp add: API_BATCH_SIZE_def)
  have general: "ledger_sync f approved_records
            = (interleave_waits
                 (map (\<lambda>i. fst (sync_step (f i) (slice approved_records i API_BATCH_SIZE) 0))
                    ?offsets), Inr ())"
    if "\<forall>i \<in> set ?offsets.
          \<exists>k. snd (sync_step (f i) (slice approved_records i API_BATCH_SIZE) 0) = Inr k" for f
    unfolding ledger_sync_def using refl that by (rule sync_batches_success)
  have "ledger_sync never_fails approved_records
          = (interleave_waits (map (\<lambda>i. [Sync_call (slice approved_records i API_BATCH_SIZE)])
               ?offsets), Inr ())"
    using general[of never_fails] by (simp add: sync_step_never_fails)
  also have "map (\<lambda>i. [Sync_call (slice approved_records i API_BATCH_SIZE)]) ?offsets
               = map (\<lambda>b. [Sync_call b]) (consecutive_batches 1000 approved_records)"
    unfolding batches[symmetric] by simp
  finally have never: "ledger_sync never_fails approved_records
       = (sequential_submission (consecutive_batches 1000 approved_records), Inr ())"
    by (simp add: interleave_single_calls)
  have sizes: "\<forall>b \<in> set (consecutive_batches 1000 approved_records).
                  0 < length b \<and> length b \<le> 1000"
    using consecutive_batches_sizes by blast
  have full: "\<forall>b \<in> set (butlast (consecutive_batches 1000 approved_records)). length b = 1000"
    using consecutive_batches_full by blast
  have cc: "concat (consecutive_batches 1000 approved_records) = approved_records"
    by (simp add: concat_consecutive_batches)
  have gen: "(\<forall>i \<in> set ?offsets.
          \<exists>k. snd (sync_step (fails i) (slice approved_records i API_BATCH_SIZE) 0) = Inr k)
       \<longrightarrow> ledger_sync fails approved_records
            = (interleave_waits
                 (map (\<lambda>i. fst (sync_step (fails i) (slice approved_records i API_BATCH_SIZE) 0))
                    ?offsets), Inr ())"
    using general[of fails] by blast
  from batches cc sizes full never gen show ?thesis by (intro conjI)
qed

theorem ledger_sync_sequential_witness:
  "ledger_sync never_fails (replicate 2500 (sample_enriched ''00001'' 5000))
     = ([Sync_call (replicate 1000 (sample_enriched ''00001'' 5000)), Wait 10,
         Sync_call (replicate 1000 (sample_enriched ''00001'' 5000)), Wait 10,
         Sync_call (replicate 500 (sample_enriched ''00001'' 5000))], Inr ())"
proof -
  let ?r = "sample_enriched ''00001'' 5000"
  have b3: "consecutive_batches 1000 (replicate 500 ?r) = [replicate 500 ?r]"
    by (subst consecutive_batches.simps, subst consecutive_batches.simps) simp
  have b2: "consecutive_batches 1000 (replicate 1500 ?r) = [replicate 1000 ?r, replicate 500 ?r]"
    by (subst consecutive_batches.simps) (simp add: b3)
  have b1: "consecutive_batches 1000 (replicate 2500 ?r)
              = [replicate 1000 ?r, replicate 1000 ?r, replicate 500 ?r]"
    by (subst consecutive_batches.simps) (simp add: b2)
  from ledger_sync_sequential[of "replicate 2500 ?r" never_fails]
  have "ledger_sync never_fails (replicate 2500 ?r)
       = (sequential_submission (consecutive_batches 1000 (replicate 2500 ?r)), Inr ())"
    by (elim conjE)
  then show ?thesis by (simp add: b1)
qed

subsection \<open>The handler with nothing approved\<close>

text \<open>
  C10. When the enrichment succeeds and the approved list is empty, the ledger
  synchronisation makes no call and no wait and succeeds; the handler goes on to the
  reports (the summary object is written, with zero approved records) and returns the
  status \<open>completed\<close>, whatever the external ledger would do.
\<close>

theorem handler_nothing_approved:
  assumes "enrich_records records = enriched"
    and "approval_gate date enriched result = (events, [], rejected)"
  shows "ledger_sync fails [] = ([], Inr ())
         \<and> lambda_handler bucket date records result fails
             = (events @ fst (generate_report bucket date [] rejected),
                Inr \<lparr> status = ''completed'', run_date = date,
                      total_records = length records, approved_count = 0,
                      rejected_count = length rejected,
                      report_url = ''s3://'' @ bucket @ ''/reports/'' @ date @ ''-report.json'' \<rparr>)
         \<and> list_ex (\<lambda>ev. ev = Put_object bucket (''reports/'' @ date @ ''-report.json'')
                        (Summary_report date 0 (length rejected) 0
                           (sum_list (map amount rejected))))
               (fst (lambda_handler bucket date records result fails))"
proof -
  from assms(2) have g:
    "fst (approval_flow date (extract_high_value_ids enriched HIGH_VALUE_THRESHOLD) result) = events"
    "select_approved enriched (fst (snd (approval_flow date
        (extract_high_value_ids enriched HIGH_VALUE_THRESHOLD) result))) = []"
    "select_rejected enriched (snd (snd (approval_flow date
        (extract_high_value_ids enriched HIGH_VALUE_THRESHOLD) result))) = rejected"
    by (simp_all add: approval_gate_def Let_def)
  have url: "summary_url (snd (generate_report bucket date [] rejected))
               = ''s3://'' @ bucket @ ''/reports/'' @ date @ ''-report.json''"
    by (simp add: generate_report_def Let_def)
  have h: "lambda_handler bucket date records result fails
             = (events @ fst (generate_report bucket date [] rejected),
                Inr \<lparr> status = ''completed'', run_date = date,
                      total_records = length records, approved_count = 0,
                      rejected_count = length rejected,
                      report_url = ''s3://'' @ bucket @ ''/reports/'' @ date @ ''-report.json'' \<rparr>)"
    using assms(1) g url by (simp add: lambda_handler_def Let_def ledger_sync_empty)
  have w: "list_ex (\<lambda>ev. ev = Put_object bucket (''reports/'' @ date @ ''-report.json'')
                        (Summary_report date 0 (length rejected) 0
                           (sum_list (map amount rejected))))
               (events @ fst (generate_report bucket date [] rejected))"
    by (simp add: generate_report_def Let_def)
  from h w show ?thesis by (simp add: ledger_sync_empty)
qed

theorem handler_nothing_approved_witness:
  "enrich_records [sample_record ''00001'' 2000000, sample_record ''00002'' 3000000]
     = [sample_enriched ''00001'' 2000000, sample_enriched ''00002'' 3000000]
   \<and> approval_gate ''2025-01-15''
        [sample_enriched ''00001'' 2000000, sample_enriched ''00002'' 3000000] No_result
     = ([Create_callback, Send_approval_request 2 ''2025-01-15'', Await_callback], [],
        [sample_enriched ''00001'' 2000000, sample_enriched ''00002'' 3000000])
   \<and> lambda_handler ''bucket'' ''2025-01-15''
        [sample_record ''00001'' 2000000, sample_record ''00002'' 3000000] No_result ledger_down
     = ([Create_callback, Send_approval_request 2 ''2025-01-15'', Await_callback,
         Put_object ''bucket'' ''rejected/2025-01-15-rejected.json''
           (Rejected_report ''2025-01-15'' 2 5000000
              [sample_enriched ''00001'' 2000000, sample_enriched ''00002'' 3000000]),
         Put_object ''bucket'' ''reports/2025-01-15-report.json''
           (Summary_report ''2025-01-15'' 0 2 0 5000000)],
        Inr \<lparr> status = ''completed'', run_date = ''2025-01-15'', total_records = 2,
              approved_count = 0, rejected_count = 2,
              report_url = ''s3://bucket/reports/2025-01-15-report.json'' \<rparr>)"
proof -
  let ?rs = "[sample_record ''00001'' 2000000, sample_record ''00002'' 3000000]"
  let ?es = "[sample_enriched ''00001'' 2000000, sample_enriched ''00002'' 3000000]"
  have e: "enrich_records ?rs = ?es"
    by (simp add: enrich_sample_records)
  have g: "approval_gate ''2025-01-15'' ?es No_result
     = ([Create_callback, Send_approval_request 2 ''2025-01-15'', Await_callback], [], ?es)"
    by (simp add: approval_gate_def approval_flow_def extract_high_value_ids_def
        select_approved_def select_rejected_def HIGH_VALUE_THRESHOLD_def sample_enriched_def)
  have r: "fst (generate_report ''bucket'' ''2025-01-15'' [] ?es)
     = [Put_object ''bucket'' ''rejected/2025-01-15-rejected.json''
           (Rejected_report ''2025-01-15'' 2 5000000 ?es),
         Put_object ''bucket'' ''reports/2025-01-15-report.json''
           (Summary_report ''2025-01-15'' 0 2 0 5000000)]"
    by (simp add: generate_report_def Let_def sample_enriched_def)
  from handler_nothing_approved[OF e g, of ledger_down "''bucket''"]
  have "lambda_handler ''bucket'' ''2025-01-15'' ?rs No_result ledger_down
             = ([Create_callback, Send_approval_request 2 ''2025-01-15'', Await_callback]
                  @ fst (generate_report ''bucket'' ''2025-01-15'' [] ?es),
                Inr \<lparr> status = ''completed'', run_date = ''2025-01-15'',
                      total_records = length ?rs, approved_count = 0,
                      rejected_count = length ?es,
                      report_url = ''s3://'' @ ''bucket'' @ ''/reports/'' @ ''2025-01-15'' @ ''-report.json'' \<rparr>)"
    by (elim conjE)
  then have "lambda_handler ''bucket'' ''2025-01-15'' ?rs No_result ledger_down
     = ([Create_callback, Send_approval_request 2 ''2025-01-15'', Await_callback,
         Put_object ''bucket'' ''rejected/2025-01-15-rejected.json''
           (Rejected_report ''2025-01-15'' 2 5000000 ?es),
         Put_object ''bucket'' ''reports/2025-01-15-report.json''
           (Summary_report ''2025-01-15'' 0 2 0 5000000)],
        Inr \<lparr> status = ''completed'', run_date = ''2025-01-15'', total_records = 2,
              approved_count = 0, rejected_count = 2,
              report_url = ''s3://bucket/reports/2025-01-15-report.json'' \<rparr>)"
    unfolding r by simp
  with e g show ?thesis by (intro conjI)
qed

end
